theory Spec2Isabelle
  imports Main
begin

section \<open>HashBrown: a cost table for block-merging segmentations\<close>

text \<open>
  The module \<^verbatim>\<open>HashBrown.py\<close> enumerates the patterns (runs of merged blocks) of a
  series cut into \<open>n_blocks\<close> blocks, gives each pattern an integer key, stores the
  merge cost of every pattern under its key, and evaluates the loss of a segmentation
  (a sequence of merge decisions between neighbouring blocks) by translating it to
  keys and adding the stored costs.

  Conventions of the embedding.
  \<^item> Python integers are \<open>int\<close>.
  \<^item> \<^verbatim>\<open>calculate_pattern_hash\<close> and \<^verbatim>\<open>translate_segmentation\<close> are decorated with
    \<^verbatim>\<open>numba.jit(nopython = True)\<close>, and each is modelled in two readings. The
    definitions under the source's names read the text as Python: integers without
    bound, UnboundLocalError on reading a local variable that has no value, IndexError
    on a write outside an array. The definitions with the suffix \<open>_jit\<close> read it as
    numba compiles it: the key formula in 64-bit integers that wrap around, local
    variables that start at zero, writes without a bounds check. Lemma
    \<open>translate_segmentation_jit_agrees\<close> shows that the two readings give the same
    result for at least two and at most \<open>2 ^ 31\<close> blocks and a store that holds the keys.
  \<^item> An exception is a value of \<open>error\<close>; a function that can raise returns
    \<open>error + 'a\<close> with \<open>Inl\<close> for the exception.
  \<^item> A one-dimensional array is a list. A function that writes into an array it was
    given returns the array after the call next to its result.
  \<^item> A dictionary is a map \<open>int \<rightharpoonup> 'c\<close>.
\<close>

subsection \<open>Exceptions\<close>

datatype error = IndexError | ValueError | KeyError | UnboundLocalError

subsection \<open>Patterns and their keys\<close>

text \<open>A pattern is the pair (position, length) of a run of merged blocks.\<close>

type_synonym pattern = "int \<times> int"

text \<open>
  \<^verbatim>\<open>calculate_pattern_hash(pattern_spec, arrlen)\<close>, lines 23 to 37:
  \<^verbatim>\<open>hash_ = (length - 1) * (2 * arrlen - (length - 2)) // 2 + pos\<close>.
  Floor division by the positive constant 2 is \<open>div\<close>.
\<close>

definition calculate_pattern_hash :: "pattern \<Rightarrow> int \<Rightarrow> int" where
  "calculate_pattern_hash pattern_spec arrlen =
     (case pattern_spec of (pos, length') \<Rightarrow>
        (length' - 1) * (2 * arrlen - (length' - 2)) div 2 + pos)"

text \<open>
  The valid patterns of a block space of \<open>n\<close> blocks (section 3 of the specification):
  the run starts at a block and ends inside the block space.
\<close>

definition valid_pattern :: "int \<Rightarrow> pattern \<Rightarrow> bool" where
  "valid_pattern n p = (0 \<le> fst p \<and> 1 \<le> snd p \<and> fst p + snd p \<le> n)"

text \<open>Python's \<^verbatim>\<open>range(n)\<close>: the integers from 0 to \<open>n - 1\<close>, none when \<open>n \<le> 0\<close>.\<close>

definition py_range :: "int \<Rightarrow> int list" where
  "py_range n = [0..n - 1]"

subsection \<open>The class HashBrown\<close>

text \<open>
  The attributes set by \<^verbatim>\<open>__init__\<close>, lines 133 to 163. The extra positional and
  keyword arguments of the cost function and of the hash function are fixed when the
  object is built, so the record holds the two callables with those arguments
  applied: \<open>hb_func pattern series\<close> is
  \<^verbatim>\<open>self._func(pattern, self._series, *self._func_args, **self._func_kwargs)\<close> and
  \<open>hb_hfunc pattern\<close> is
  \<^verbatim>\<open>self._hfunc(pattern, *self._hfunc_args, **self._hfunc_kwargs)\<close>.
  The table is \<^verbatim>\<open>None\<close> until \<^verbatim>\<open>create_table\<close> has run.
\<close>

record ('s, 'c) hashbrown =
  hb_series :: 's
  hb_n_blocks :: int
  hb_func :: "pattern \<Rightarrow> 's \<Rightarrow> 'c"
  hb_hfunc :: "pattern \<Rightarrow> int"
  hb_table :: "(int \<rightharpoonup> 'c) option"

text \<open>
  \<^verbatim>\<open>create_pattern_generator\<close>, lines 165 to 175: the generator expression
  \<^verbatim>\<open>((i_start, i_end + 1) for i_end in range(n) for i_start in range(n - i_end))\<close>,
  as the list of the tuples it yields, in order.
\<close>

definition create_pattern_generator :: "('s, 'c) hashbrown \<Rightarrow> pattern list" where
  "create_pattern_generator self =
     concat (map (\<lambda>i_end. map (\<lambda>i_start. (i_start, i_end + 1))
                                (py_range (hb_n_blocks self - i_end)))
                 (py_range (hb_n_blocks self)))"

text \<open>
  \<^verbatim>\<open>create_table\<close>, lines 177 to 192: a dictionary comprehension over the generator.
  Each pattern stores its cost under its key; a key that is already present is
  overwritten, as a Python dictionary does.
\<close>

definition create_table :: "('s, 'c) hashbrown \<Rightarrow> ('s, 'c) hashbrown" where
  "create_table self =
     self\<lparr>hb_table :=
       Some (foldl (\<lambda>table pattern.
                      table(hb_hfunc self pattern \<mapsto> hb_func self pattern (hb_series self)))
                   Map.empty (create_pattern_generator self))\<rparr>"

text \<open>
  \<^verbatim>\<open>__init__\<close>: an object with the given series, block count, cost function and
  hash function, and no table yet.
\<close>

definition init ::
  "'s \<Rightarrow> int \<Rightarrow> (pattern \<Rightarrow> 's \<Rightarrow> 'c) \<Rightarrow> (pattern \<Rightarrow> int) \<Rightarrow> ('s, 'c) hashbrown" where
  "init series n_blocks func hfunc =
     \<lparr>hb_series = series, hb_n_blocks = n_blocks, hb_func = func, hb_hfunc = hfunc,
      hb_table = None\<rparr>"

text \<open>
  The canonical order of the specification (section 4.3), written down from its
  words: increasing length from 1 to \<open>n\<close>, and for each length increasing position
  from 0 to \<open>n - length\<close>.
\<close>

definition canonical_patterns :: "int \<Rightarrow> pattern list" where
  "canonical_patterns n = concat (map (\<lambda>l. map (\<lambda>p. (p, l)) [0..n - l]) [1..n])"

text \<open>
  The key function of the specification (section 4.2), written down from its words:
  \<^verbatim>\<open>hash_pattern(position, length, n_blocks)\<close> is the formula of
  \<^verbatim>\<open>calculate_pattern_hash\<close> with \<^verbatim>\<open>arrlen = n_blocks - 1\<close>.
\<close>

definition hash_pattern :: "int \<Rightarrow> int \<Rightarrow> int \<Rightarrow> int" where
  "hash_pattern position length' n_blocks =
     calculate_pattern_hash (position, length') (n_blocks - 1)"

text \<open>
  The hash function of the specification in the form \<^verbatim>\<open>create_table\<close> calls it, the
  pattern first.
\<close>

definition spec_hfunc :: "int \<Rightarrow> pattern \<Rightarrow> int" where
  "spec_hfunc n_blocks pattern = hash_pattern (fst pattern) (snd pattern) n_blocks"

text \<open>A hash function for examples that gives every pattern the key 0.\<close>

definition colliding_hfunc :: "pattern \<Rightarrow> int" where
  "colliding_hfunc pattern = 0"

text \<open>A cost function for examples: distinct patterns of up to ten blocks cost differently.\<close>

definition example_cost :: "pattern \<Rightarrow> unit \<Rightarrow> int" where
  "example_cost pattern series = 10 * snd pattern + fst pattern"

subsection \<open>Translating a segmentation to keys\<close>

text \<open>
  NumPy's \<^verbatim>\<open>store[j] = v\<close> on a one-dimensional array: an index from \<open>-len\<close> to
  \<open>-1\<close> counts from the end, any other index outside the array raises IndexError.
\<close>

definition array_set :: "int list \<Rightarrow> int \<Rightarrow> int \<Rightarrow> error + int list" where
  "array_set a j v =
     (let n = int (length a) in
      if 0 \<le> j \<and> j < n then Inr (a[nat j := v])
      else if - n \<le> j \<and> j < 0 then Inr (a[nat (n + j) := v])
      else Inl IndexError)"

text \<open>The slice \<^verbatim>\<open>a[:k]\<close>; a negative \<open>k\<close> counts from the end.\<close>

definition slice_to :: "'a list \<Rightarrow> int \<Rightarrow> 'a list" where
  "slice_to a k = (if 0 \<le> k then take (nat k) a else take (nat (int (length a) + k)) a)"

text \<open>
  The local variables of \<^verbatim>\<open>translate_segmentation\<close>, lines 56 to 103, and the array
  \<^verbatim>\<open>store\<close> it writes. \<^verbatim>\<open>pos\<close> and the loop variable \<^verbatim>\<open>i\<close> have no value until
  their first assignment: they are \<open>None\<close> until then, and reading one that is still
  \<open>None\<close> raises UnboundLocalError.
\<close>

record ts_state =
  ts_is_free :: bool
  ts_length :: int
  ts_iseg :: int
  ts_pos :: "int option"
  ts_i :: "int option"
  ts_store :: "int list"

text \<open>
  \<^verbatim>\<open>calculate_pattern_hash((pos, length), arrlen)\<close> as lines 83 and 96 call it, on
  the locals.
\<close>

definition run_hash :: "int \<Rightarrow> ts_state \<Rightarrow> error + int" where
  "run_hash arrlen s =
     (case ts_pos s of
        None \<Rightarrow> Inl UnboundLocalError
      | Some pos \<Rightarrow> Inr (calculate_pattern_hash (pos, ts_length s) arrlen))"

text \<open>
  Lines 91 and 92, and 100 and 101: \<^verbatim>\<open>iseg += 1; store[iseg] = hash_\<close>.
\<close>

definition emit :: "int \<Rightarrow> ts_state \<Rightarrow> error + ts_state" where
  "emit key s =
     (case array_set (ts_store s) (ts_iseg s + 1) key of
        Inl e \<Rightarrow> Inl e
      | Inr store' \<Rightarrow> Inr (s\<lparr>ts_iseg := ts_iseg s + 1, ts_store := store'\<rparr>))"

text \<open>One pass of the loop body, lines 75 to 92, for the index \<open>i\<close> and the decision \<open>x\<close>.\<close>

definition loop_body :: "int \<Rightarrow> int \<Rightarrow> int \<Rightarrow> ts_state \<Rightarrow> error + ts_state" where
  "loop_body arrlen i x s0 =
     (let s = s0\<lparr>ts_i := Some i\<rparr> in
      if x = 1 then
        Inr ((if ts_is_free s then s\<lparr>ts_pos := Some i, ts_is_free := False\<rparr> else s)
               \<lparr>ts_length := ts_length s + 1\<rparr>)
      else if ts_length s > 1 then
        (case run_hash arrlen s of
           Inl e \<Rightarrow> Inl e
         | Inr key \<Rightarrow> emit key (s\<lparr>ts_length := 1, ts_is_free := True\<rparr>))
      else emit i s)"

text \<open>\<^verbatim>\<open>for i, x in enumerate(arr)\<close>: the body for each element, the index counting up.\<close>

fun translate_loop :: "int \<Rightarrow> int \<Rightarrow> int list \<Rightarrow> ts_state \<Rightarrow> error + ts_state" where
  "translate_loop arrlen i [] s = Inr s"
| "translate_loop arrlen i (x # xs) s =
     (case loop_body arrlen i x s of
        Inl e \<Rightarrow> Inl e
      | Inr s' \<Rightarrow> translate_loop arrlen (i + 1) xs s')"

text \<open>
  Lines 94 to 103, after the loop: the key of the last pattern, from \<^verbatim>\<open>pos\<close> and
  \<^verbatim>\<open>length\<close> when a run is open and \<^verbatim>\<open>i + 1\<close> otherwise, is stored, and the
  slice \<^verbatim>\<open>store[:iseg + 1]\<close> is returned.
\<close>

definition last_element :: "int \<Rightarrow> ts_state \<Rightarrow> error + (int list \<times> int list)" where
  "last_element arrlen s =
     (case (if ts_length s > 1 then run_hash arrlen s
            else (case ts_i s of None \<Rightarrow> Inl UnboundLocalError | Some i \<Rightarrow> Inr (i + 1))) of
        Inl e \<Rightarrow> Inl e
      | Inr key \<Rightarrow>
          (case emit key s of
             Inl e \<Rightarrow> Inl e
           | Inr s' \<Rightarrow> Inr (ts_store s', slice_to (ts_store s') (ts_iseg s' + 1))))"

text \<open>
  \<^verbatim>\<open>translate_segmentation(arr, store)\<close>. The result is the pair of \<^verbatim>\<open>store\<close> after
  the call and the returned slice. Note line 71: the value passed to
  \<^verbatim>\<open>calculate_pattern_hash\<close> as \<^verbatim>\<open>arrlen\<close> is \<^verbatim>\<open>arr.size + 1\<close>, the number of
  blocks.
\<close>

definition translate_segmentation :: "int list \<Rightarrow> int list \<Rightarrow> error + (int list \<times> int list)" where
  "translate_segmentation arr store =
     (let arrlen = int (length arr) + 1 in
      case translate_loop arrlen 0 arr
             \<lparr>ts_is_free = True, ts_length = 1, ts_iseg = - 1, ts_pos = None, ts_i = None,
              ts_store = store\<rparr> of
        Inl e \<Rightarrow> Inl e
      | Inr s \<Rightarrow> last_element arrlen s)"

subsection \<open>The compiled reading\<close>

text \<open>
  A signed 64-bit integer: the value of \<open>x\<close> after wrap-around.
\<close>

definition int64 :: "int \<Rightarrow> int" where
  "int64 x = (x + 2 ^ 63) mod 2 ^ 64 - 2 ^ 63"

text \<open>
  \<^verbatim>\<open>calculate_pattern_hash\<close> as compiled: the same formula, every operation on 64-bit
  integers. The floor division by 2 cannot leave the range.
\<close>

definition calculate_pattern_hash_jit :: "pattern \<Rightarrow> int \<Rightarrow> int" where
  "calculate_pattern_hash_jit pattern_spec arrlen =
     (case pattern_spec of (pos, length') \<Rightarrow>
        int64 (int64 (int64 (length' - 1) * int64 (int64 (2 * arrlen) - int64 (length' - 2)))
                 div 2 + pos))"

text \<open>
  \<^verbatim>\<open>store[j] = v\<close> as compiled: there is no bounds check, and a write outside the
  array does not reach its elements (what it does to the memory next to the array is
  not modelled). An index from \<open>-len\<close> to \<open>-1\<close> counts from the end.
\<close>

definition array_set_jit :: "int list \<Rightarrow> int \<Rightarrow> int \<Rightarrow> int list" where
  "array_set_jit a j v =
     (let n = int (length a) in
      if 0 \<le> j \<and> j < n then a[nat j := v]
      else if - n \<le> j \<and> j < 0 then a[nat (n + j) := v]
      else a)"

text \<open>
  The local variables of the compiled \<^verbatim>\<open>translate_segmentation\<close>: \<^verbatim>\<open>pos\<close> and \<^verbatim>\<open>i\<close>
  are integers that start at zero. The counters \<^verbatim>\<open>i\<close>, \<^verbatim>\<open>length\<close> and \<^verbatim>\<open>iseg\<close>
  count elements of an array in memory and are left without wrap-around.
\<close>

record jit_state =
  js_is_free :: bool
  js_length :: int
  js_iseg :: int
  js_pos :: int
  js_i :: int
  js_store :: "int list"

definition emit_jit :: "int \<Rightarrow> jit_state \<Rightarrow> jit_state" where
  "emit_jit key s =
     s\<lparr>js_iseg := js_iseg s + 1, js_store := array_set_jit (js_store s) (js_iseg s + 1) key\<rparr>"

definition loop_body_jit :: "int \<Rightarrow> int \<Rightarrow> int \<Rightarrow> jit_state \<Rightarrow> jit_state" where
  "loop_body_jit arrlen i x s0 =
     (let s = s0\<lparr>js_i := i\<rparr> in
      if x = 1 then
        (if js_is_free s then s\<lparr>js_pos := i, js_is_free := False\<rparr> else s)
          \<lparr>js_length := js_length s + 1\<rparr>
      else if js_length s > 1 then
        emit_jit (calculate_pattern_hash_jit (js_pos s, js_length s) arrlen)
          (s\<lparr>js_length := 1, js_is_free := True\<rparr>)
      else emit_jit i s)"

fun translate_loop_jit :: "int \<Rightarrow> int \<Rightarrow> int list \<Rightarrow> jit_state \<Rightarrow> jit_state" where
  "translate_loop_jit arrlen i [] s = s"
| "translate_loop_jit arrlen i (x # xs) s =
     translate_loop_jit arrlen (i + 1) xs (loop_body_jit arrlen i x s)"

definition last_element_jit :: "int \<Rightarrow> jit_state \<Rightarrow> int list \<times> int list" where
  "last_element_jit arrlen s =
     (let key = (if js_length s > 1
                 then calculate_pattern_hash_jit (js_pos s, js_length s) arrlen
                 else js_i s + 1);
          s' = emit_jit key s
      in (js_store s', slice_to (js_store s') (js_iseg s' + 1)))"

text \<open>
  The compiled \<^verbatim>\<open>translate_segmentation(arr, store)\<close>: it always returns. The result
  is the pair of \<^verbatim>\<open>store\<close> after the call and the returned slice.
\<close>

definition translate_segmentation_jit :: "int list \<Rightarrow> int list \<Rightarrow> int list \<times> int list" where
  "translate_segmentation_jit arr store =
     (let arrlen = int (length arr) + 1 in
      last_element_jit arrlen
        (translate_loop_jit arrlen 0 arr
           \<lparr>js_is_free = True, js_length = 1, js_iseg = - 1, js_pos = 0, js_i = 0,
            js_store = store\<rparr>))"






text \<open>
  For the proofs about the compiled loop: the key the loop stores for a pattern (the
  position for a single block, the hash for a run), the rest of a call from the loop
  index \<open>i\<close> on, and the outcome of storing keys from index \<open>k\<close> on without a bounds
  check.
\<close>

definition emitted_key :: "int \<Rightarrow> pattern \<Rightarrow> int" where
  "emitted_key arrlen p = (if 1 < snd p then calculate_pattern_hash_jit p arrlen else fst p)"

definition finish_jit :: "int \<Rightarrow> int \<Rightarrow> int list \<Rightarrow> jit_state \<Rightarrow> int list \<times> int list" where
  "finish_jit arrlen i xs s = last_element_jit arrlen (translate_loop_jit arrlen i xs s)"

definition store_keys_jit :: "nat \<Rightarrow> int list \<Rightarrow> int list \<Rightarrow> int list \<times> int list" where
  "store_keys_jit k sto ks =
     (let sto' = take (length sto) (take k sto @ ks @ drop (k + length ks) sto)
      in (sto', take (k + length ks) sto'))"

text \<open>
  Two notions for the proofs about the loop. \<open>finish arrlen i xs s\<close> is the rest of a
  call of \<^verbatim>\<open>translate_segmentation\<close> from the loop index \<open>i\<close> on, with the decisions
  \<open>xs\<close> still to read and the locals \<open>s\<close>. \<open>store_keys k sto ks\<close> is the outcome of
  storing the keys \<open>ks\<close> in \<open>sto\<close> from index \<open>k\<close> on and returning the slice up to the
  last of them: the array after the writes and the slice, or IndexError when the keys
  do not fit.
\<close>

definition finish :: "int \<Rightarrow> int \<Rightarrow> int list \<Rightarrow> ts_state \<Rightarrow> error + (int list \<times> int list)" where
  "finish arrlen i xs s =
     (case translate_loop arrlen i xs s of
        Inl e \<Rightarrow> Inl e
      | Inr s' \<Rightarrow> last_element arrlen s')"

definition store_keys :: "nat \<Rightarrow> int list \<Rightarrow> int list \<Rightarrow> error + (int list \<times> int list)" where
  "store_keys k sto ks =
     (if k + length ks \<le> length sto
      then Inr (take k sto @ ks @ drop (k + length ks) sto, take k sto @ ks)
      else Inl IndexError)"

text \<open>
  The decomposition of the specification (section 3), written down from its words:
  the ordered list of the patterns a sequence of decisions implies. A maximal run of
  consecutive 1s is one pattern of the blocks it merges, and every other block is a
  pattern of length 1. \<open>patterns_from s l xs\<close> reads the decisions \<open>xs\<close> with the open
  pattern starting at block \<open>s\<close> and holding \<open>l\<close> blocks so far: a 1 merges the next
  block into it, any other decision closes it and opens the next block's.
\<close>

fun patterns_from :: "int \<Rightarrow> int \<Rightarrow> int list \<Rightarrow> pattern list" where
  "patterns_from s l [] = [(s, l)]"
| "patterns_from s l (x # xs) =
     (if x = 1 then patterns_from s (l + 1) xs else (s, l) # patterns_from (s + l) 1 xs)"

definition decomposition :: "int list \<Rightarrow> pattern list" where
  "decomposition arr = patterns_from 0 1 arr"

text \<open>
  A list of patterns partitions the blocks from \<open>a\<close> to \<open>b - 1\<close> with no gaps and no
  overlaps: the first pattern starts at \<open>a\<close>, each pattern has at least one block and
  the next one starts at the block after its last, and the last pattern ends at
  \<open>b - 1\<close>.
\<close>

fun tiles :: "int \<Rightarrow> int \<Rightarrow> pattern list \<Rightarrow> bool" where
  "tiles a b [] = (a = b)"
| "tiles a b (p # ps) = (fst p = a \<and> 1 \<le> snd p \<and> tiles (a + snd p) b ps)"

subsection \<open>The loss of a segmentation\<close>

text \<open>
  \<^verbatim>\<open>sum(hash_table[k] for k in hash_keys)\<close>: the keys are looked up one after the
  other and the values added to a total that starts at 0; the first key that is not
  in the dictionary raises KeyError.
\<close>

fun sum_lookup :: "(int \<rightharpoonup> 'c) \<Rightarrow> 'c \<Rightarrow> int list \<Rightarrow> error + 'c::plus" where
  "sum_lookup hash_table acc [] = Inr acc"
| "sum_lookup hash_table acc (k # ks) =
     (case hash_table k of
        None \<Rightarrow> Inl KeyError
      | Some v \<Rightarrow> sum_lookup hash_table (acc + v) ks)"

text \<open>
  \<^verbatim>\<open>calculate_loss_function(segmentation, store, hash_table)\<close>, lines 39 to 53. The
  result is the pair of \<^verbatim>\<open>store\<close> after the call and the loss.
\<close>

definition calculate_loss_function ::
  "int list \<Rightarrow> int list \<Rightarrow> (int \<rightharpoonup> 'c) \<Rightarrow> error + (int list \<times> 'c::{zero,plus})" where
  "calculate_loss_function segmentation store hash_table =
     (case translate_segmentation segmentation store of
        Inl e \<Rightarrow> Inl e
      | Inr (store', hash_keys) \<Rightarrow>
          (case sum_lookup hash_table 0 hash_keys of
             Inl e \<Rightarrow> Inl e
           | Inr loss \<Rightarrow> Inr (store', loss)))"

text \<open>
  \<^verbatim>\<open>calculate_loss_function\<close> with the compiled \<^verbatim>\<open>translate_segmentation\<close>, as the
  module runs it. The lookup and the sum are Python's.
\<close>

definition calculate_loss_function_jit ::
  "int list \<Rightarrow> int list \<Rightarrow> (int \<rightharpoonup> 'c) \<Rightarrow> error + (int list \<times> 'c::{zero,plus})" where
  "calculate_loss_function_jit segmentation store hash_table =
     (case translate_segmentation_jit segmentation store of
        (store', hash_keys) \<Rightarrow>
          (case sum_lookup hash_table 0 hash_keys of
             Inl e \<Rightarrow> Inl e
           | Inr loss \<Rightarrow> Inr (store', loss)))"

subsection \<open>Block indices\<close>

text \<open>\<^verbatim>\<open>np.cumsum\<close> of a list of sizes.\<close>

fun cumsum_from :: "nat \<Rightarrow> nat list \<Rightarrow> nat list" where
  "cumsum_from acc [] = []"
| "cumsum_from acc (x # xs) = (acc + x) # cumsum_from (acc + x) xs"

definition cumsum :: "nat list \<Rightarrow> nat list" where
  "cumsum xs = cumsum_from 0 xs"

text \<open>
  Modelled from the spec: \<^verbatim>\<open>np.array_split\<close> is NumPy's, not a function of this
  repository. The specification describes the split as the standard near-equal
  partition, sizes differing by at most 1 and the larger parts first; the definition
  follows NumPy's own computation of it: a section count that is not positive raises
  ValueError; otherwise, with \<open>Neach, extras = divmod(Ntotal, Nsections)\<close>, the
  section sizes are \<open>extras\<close> times \<open>Neach + 1\<close> followed by \<open>Nsections - extras\<close>
  times \<open>Neach\<close>, the division points are the cumulative sums of the sizes after a
  leading 0, and section \<open>i\<close> is the slice between division points \<open>i\<close> and \<open>i + 1\<close>.
\<close>

definition array_split :: "'a list \<Rightarrow> int \<Rightarrow> error + 'a list list" where
  "array_split ary indices_or_sections =
     (if indices_or_sections \<le> 0 then Inl ValueError
      else
        let Ntotal = length ary;
            Nsections = nat indices_or_sections;
            Neach_section = Ntotal div Nsections;
            extras = Ntotal mod Nsections;
            section_sizes = [0] @ replicate extras (Neach_section + 1)
                                @ replicate (Nsections - extras) Neach_section;
            div_points = cumsum section_sizes
        in Inr (map (\<lambda>i. drop (div_points ! i) (take (div_points ! (i + 1)) ary))
                    [0..<Nsections]))"

text \<open>\<^verbatim>\<open>np.arange(n)\<close>.\<close>

definition arange :: "nat \<Rightarrow> int list" where
  "arange n = map int [0..<n]"

text \<open>
  \<^verbatim>\<open>(idcs[0], idcs[-1])\<close>: both reads raise IndexError on an empty array.
\<close>

definition first_last :: "int list \<Rightarrow> error + (int \<times> int)" where
  "first_last idcs = (case idcs of [] \<Rightarrow> Inl IndexError | x # xs \<Rightarrow> Inr (x, last (x # xs)))"

text \<open>A list comprehension whose element expression can raise.\<close>

fun comprehension :: "('a \<Rightarrow> error + 'b) \<Rightarrow> 'a list \<Rightarrow> error + 'b list" where
  "comprehension f [] = Inr []"
| "comprehension f (x # xs) =
     (case f x of
        Inl e \<Rightarrow> Inl e
      | Inr y \<Rightarrow> (case comprehension f xs of Inl e \<Rightarrow> Inl e | Inr ys \<Rightarrow> Inr (y # ys)))"

text \<open>
  \<^verbatim>\<open>calculate_block_indices(series, n_blocks)\<close>, lines 5 to 21. The function reads
  of \<^verbatim>\<open>series\<close> only \<^verbatim>\<open>series.shape[1]\<close>, the length of the series, which the model
  takes in its place. The result is the list of the rows of the returned array; the
  conversion \<^verbatim>\<open>np.array(block_indices, dtype = np.int)\<close> of line 19 keeps the
  integers as they are (\<^verbatim>\<open>np.int\<close> is Python's \<^verbatim>\<open>int\<close> in the NumPy releases that
  have it).
\<close>

definition calculate_block_indices :: "nat \<Rightarrow> int \<Rightarrow> error + (int \<times> int) list" where
  "calculate_block_indices series_length n_blocks =
     (if n_blocks > int series_length then Inl IndexError
      else
        (case array_split (arange series_length) n_blocks of
           Inl e \<Rightarrow> Inl e
         | Inr parts \<Rightarrow> comprehension first_last parts))"

text \<open>
  For the proofs about the block indices: the index at which block \<open>i\<close> starts when
  a series of length \<open>len\<close> is cut into \<open>n\<close> blocks of which the first \<open>len mod n\<close>
  hold one element more than the others.
\<close>

definition block_start :: "nat \<Rightarrow> nat \<Rightarrow> nat \<Rightarrow> nat" where
  "block_start len n i = i * (len div n) + min i (len mod n)"

section \<open>Properties\<close>

subsection \<open>Enumeration and keys\<close>

lemma map_add_upto: "map (\<lambda>i. i + k) [a..b] = [a + k..b + k]"
proof (induction a b rule: upto.induct)
  case (1 i j)
  show ?case
  proof (cases "i \<le> j")
    case True
    with 1 show ?thesis
      by (simp add: upto_rec1 [of i j] upto_rec1 [of "i + k" "j + k"] add.commute add.left_commute)
  next
    case False
    then show ?thesis by simp
  qed
qed

lemma upto_append: "0 \<le> a \<Longrightarrow> a \<le> b + 1 \<Longrightarrow> [0..a - 1] @ [a..b] = [0..b]"
proof (cases "a \<le> b")
  case True
  assume "0 \<le> a"
  with True show ?thesis using upto_split1 [of 0 a b] by simp
next
  case False
  assume "a \<le> b + 1"
  with False have "a - 1 = b" by simp
  with False show ?thesis by simp
qed

lemma generator_canonical:
  "create_pattern_generator self = canonical_patterns (hb_n_blocks self)"
proof -
  have "[1..hb_n_blocks self] = map (\<lambda>i. i + 1) [0..hb_n_blocks self - 1]"
    by (simp add: map_add_upto)
  then show ?thesis
    by (simp add: create_pattern_generator_def canonical_patterns_def py_range_def comp_def
        algebra_simps)
qed

text \<open>The keys of the patterns of one length follow those of the length before.\<close>

lemma hash_next_length:
  "calculate_pattern_hash (0, l + 1) n = calculate_pattern_hash (0, l) n + (n + 1 - l)"
proof -
  have "((l + 1) - 1) * (2 * n - ((l + 1) - 2)) = (l - 1) * (2 * n - (l - 2)) + 2 * (n + 1 - l)"
    by (simp add: algebra_simps)
  then have "((l + 1) - 1) * (2 * n - ((l + 1) - 2)) div 2 =
      (l - 1) * (2 * n - (l - 2)) div 2 + (n + 1 - l)"
    by simp
  then show ?thesis by (simp add: calculate_pattern_hash_def)
qed

lemma hash_block:
  "map (\<lambda>p. calculate_pattern_hash p n) (map (\<lambda>p. (p, l)) [0..n - l]) =
     [calculate_pattern_hash (0, l) n..calculate_pattern_hash (0, l + 1) n - 1]"
proof -
  have "map (\<lambda>p. calculate_pattern_hash p n) (map (\<lambda>p. (p, l)) [0..n - l]) =
          map (\<lambda>p. p + calculate_pattern_hash (0, l) n) [0..n - l]"
    by (simp add: comp_def calculate_pattern_hash_def)
  also have "\<dots> = [0 + calculate_pattern_hash (0, l) n..n - l + calculate_pattern_hash (0, l) n]"
    by (rule map_add_upto)
  also have "\<dots> = [calculate_pattern_hash (0, l) n..calculate_pattern_hash (0, l + 1) n - 1]"
  proof -
    have "n - l + calculate_pattern_hash (0, l) n = calculate_pattern_hash (0, l + 1) n - 1"
      using hash_next_length [of l n] by simp
    then show ?thesis by simp
  qed
  finally show ?thesis .
qed

lemma hash_prefix:
  assumes "0 \<le> m" and "m \<le> n"
  shows "map (\<lambda>p. calculate_pattern_hash p n)
           (concat (map (\<lambda>l. map (\<lambda>p. (p, l)) [0..n - l]) [1..m])) =
         [0..calculate_pattern_hash (0, m + 1) n - 1] \<and>
         0 \<le> calculate_pattern_hash (0, m + 1) n"
  using assms
proof (induction m rule: int_ge_induct)
  case base
  show ?case by (simp add: calculate_pattern_hash_def)
next
  case (step i)
  then have ih: "map (\<lambda>p. calculate_pattern_hash p n)
           (concat (map (\<lambda>l. map (\<lambda>p. (p, l)) [0..n - l]) [1..i])) =
         [0..calculate_pattern_hash (0, i + 1) n - 1]"
    and nonneg: "0 \<le> calculate_pattern_hash (0, i + 1) n" by simp_all
  have next_hash: "calculate_pattern_hash (0, i + 1 + 1) n =
      calculate_pattern_hash (0, i + 1) n + (n - i)"
    using hash_next_length [of "i + 1" n] by simp
  have "[1..i + 1] = [1..i] @ [i + 1]"
    using step.hyps upto_rec2 [of 1 "i + 1"] by simp
  then have "map (\<lambda>p. calculate_pattern_hash p n)
           (concat (map (\<lambda>l. map (\<lambda>p. (p, l)) [0..n - l]) [1..i + 1])) =
        [0..calculate_pattern_hash (0, i + 1) n - 1] @
        [calculate_pattern_hash (0, i + 1) n..calculate_pattern_hash (0, i + 1 + 1) n - 1]"
    using ih hash_block [of n "i + 1"] by simp
  also have "\<dots> = [0..calculate_pattern_hash (0, i + 1 + 1) n - 1]"
    using nonneg next_hash step.prems by (intro upto_append) simp_all
  finally show ?case using nonneg next_hash step.prems by simp
qed

text \<open>
  With \<open>arrlen\<close> the number of blocks, the pattern at place \<open>k\<close> of the canonical
  order has the key \<open>k\<close>.
\<close>

lemma hash_canonical:
  assumes "0 \<le> n"
  shows "map (\<lambda>p. calculate_pattern_hash p n) (canonical_patterns n) =
           [0..n * (n + 1) div 2 - 1]"
proof -
  have "calculate_pattern_hash (0, n + 1) n = n * (n + 1) div 2"
    by (simp add: calculate_pattern_hash_def algebra_simps)
  with hash_prefix [of n n] assms show ?thesis
    by (simp add: canonical_patterns_def)
qed

lemma set_canonical: "set (canonical_patterns n) = {p. valid_pattern n p}"
proof -
  have "(p, l) \<in> set (canonical_patterns n) \<longleftrightarrow> valid_pattern n (p, l)" for p l
    by (fastforce simp: canonical_patterns_def valid_pattern_def image_iff)
  then show ?thesis by auto
qed

lemma distinct_canonical: "0 \<le> n \<Longrightarrow> distinct (canonical_patterns n)"
  using hash_canonical [of n] distinct_upto [of 0 "n * (n + 1) div 2 - 1"]
  by (metis distinct_map)

lemma inj_on_hash:
  "0 \<le> n \<Longrightarrow> inj_on (\<lambda>p. calculate_pattern_hash p n) {p. valid_pattern n p}"
  using hash_canonical [of n] distinct_upto [of 0 "n * (n + 1) div 2 - 1"]
  by (metis distinct_map set_canonical)

lemma length_canonical:
  assumes n: "0 \<le> n"
  shows "int (length (canonical_patterns n)) = n * (n + 1) div 2"
proof -
  have "length (canonical_patterns n) =
      length (map (\<lambda>p. calculate_pattern_hash p n) (canonical_patterns n))"
    by simp
  also have "\<dots> = nat (n * (n + 1) div 2)"
    by (simp only: hash_canonical [OF n] length_upto)
  finally show ?thesis using n by (simp add: pos_imp_zdiv_nonneg_iff)
qed

text \<open>
  For a valid pattern of up to \<open>2 ^ 31\<close> blocks neither the product nor the key
  leaves the range of a signed 64-bit integer.
\<close>

lemma calculate_pattern_hash_bounds:
  assumes "valid_pattern n (pos, l)" and "n \<le> 2 ^ 31"
  shows "0 \<le> (l - 1) * (2 * n - (l - 2)) \<and> (l - 1) * (2 * n - (l - 2)) < 2 ^ 63 \<and>
         0 \<le> calculate_pattern_hash (pos, l) n \<and> calculate_pattern_hash (pos, l) n < 2 ^ 63"
proof -
  from assms(1) have l: "1 \<le> l" "l \<le> n" and pos: "0 \<le> pos" "pos + l \<le> n"
    by (simp_all add: valid_pattern_def)
  define x where "x = (l - 1) * (2 * n - (l - 2))"
  have "x \<le> (n - 1) * (2 * n + 1)"
    unfolding x_def using l by (intro mult_mono) simp_all
  also have "\<dots> < 2 * (n * n)"
    using l by (simp add: algebra_simps)
  also have "n * n \<le> 2 ^ 31 * 2 ^ 31"
    using l assms(2) by (intro mult_mono) simp_all
  finally have upper: "x < 2 ^ 63" by simp
  have lower: "0 \<le> x"
    unfolding x_def using l by simp
  have key: "calculate_pattern_hash (pos, l) n = x div 2 + pos"
    by (simp add: calculate_pattern_hash_def x_def)
  have "x div 2 < 2 ^ 62" using upper by simp
  moreover have "0 \<le> x div 2" using lower by simp
  moreover have "pos < 2 ^ 31" using pos l assms(2) by simp
  ultimately have "0 \<le> x div 2 + pos \<and> x div 2 + pos < 2 ^ 63"
    using pos(1) by simp
  with upper lower key show ?thesis by (simp add: x_def)
qed

text \<open>
  The compiled key formula. Within the 64-bit range nothing wraps, and wrap-around
  keeps the parity.
\<close>

lemma int64_id: "- (2 ^ 63) \<le> x \<Longrightarrow> x < 2 ^ 63 \<Longrightarrow> int64 x = x"
  by (simp add: int64_def)

lemma even_int64: "even (int64 x) \<longleftrightarrow> even x"
proof -
  have "even ((x + 2 ^ 63) mod 2 ^ 64) \<longleftrightarrow> even (x + 2 ^ 63)"
    by (rule dvd_mod_iff) simp
  then show ?thesis by (simp add: int64_def)
qed

lemma even_product_jit:
  "even (int64 (int64 (l - 1) * int64 (int64 (2 * arrlen) - int64 (l - 2))))"
  by (simp add: even_int64)

lemma calculate_pattern_hash_jit_eq:
  assumes "valid_pattern n (pos, l)" and "n \<le> 2 ^ 31"
  shows "calculate_pattern_hash_jit (pos, l) n = calculate_pattern_hash (pos, l) n"
proof -
  from assms(1) have l: "1 \<le> l" "l \<le> n" and pos: "0 \<le> pos" "pos + l \<le> n"
    by (simp_all add: valid_pattern_def)
  note bounds = calculate_pattern_hash_bounds [OF assms]
  have a: "int64 (l - 1) = l - 1" using l assms(2) by (intro int64_id) simp_all
  have b: "int64 (2 * n) = 2 * n" using l assms(2) by (intro int64_id) simp_all
  have c: "int64 (l - 2) = l - 2" using l assms(2) by (intro int64_id) simp_all
  have d: "int64 (2 * n - (l - 2)) = 2 * n - (l - 2)" using l assms(2) by (intro int64_id) simp_all
  have e: "int64 ((l - 1) * (2 * n - (l - 2))) = (l - 1) * (2 * n - (l - 2))"
    using bounds by (intro int64_id) simp_all
  have f: "int64 ((l - 1) * (2 * n - (l - 2)) div 2 + pos) = (l - 1) * (2 * n - (l - 2)) div 2 + pos"
    using bounds by (intro int64_id) (simp_all add: calculate_pattern_hash_def)
  show ?thesis
    by (simp add: calculate_pattern_hash_jit_def calculate_pattern_hash_def a b c d e f)
qed

text \<open>
  C1, as the specification states it, fails: with \<^verbatim>\<open>arrlen = n_blocks - 1\<close> and two
  blocks, the single block 1 and the run of both blocks get the same key, in the
  Python reading and in the compiled one. And a bound on the block count is needed
  whatever \<^verbatim>\<open>arrlen\<close> is: with \<open>2 ^ 32\<close> blocks and \<^verbatim>\<open>arrlen\<close> the number of blocks,
  the product of the compiled formula wraps around, and the run of all blocks gets
  the key of a single block.
\<close>

theorem hash_pattern_collision:
  "valid_pattern 2 (1, 1) \<and> valid_pattern 2 (0, 2) \<and>
   hash_pattern 1 1 2 = hash_pattern 0 2 2 \<and>
   calculate_pattern_hash_jit (1, 1) (2 - 1) = calculate_pattern_hash_jit (0, 2) (2 - 1) \<and>
   valid_pattern (2 ^ 32) (0, 2 ^ 32) \<and> valid_pattern (2 ^ 32) (2 ^ 31 - 1, 1) \<and>
   calculate_pattern_hash_jit (0, 2 ^ 32) (2 ^ 32) =
     calculate_pattern_hash_jit (2 ^ 31 - 1, 1) (2 ^ 32)"
proof -
  have "calculate_pattern_hash_jit (1, 1) (2 - 1) = calculate_pattern_hash_jit (0, 2) (2 - 1)"
    by code_simp
  moreover have "calculate_pattern_hash_jit (0, 2 ^ 32) (2 ^ 32) =
      calculate_pattern_hash_jit (2 ^ 31 - 1, 1) (2 ^ 32)"
    by code_simp
  ultimately show ?thesis
    by (simp add: valid_pattern_def hash_pattern_def calculate_pattern_hash_def)
qed

text \<open>
  C1, amended. For every block count \<open>n\<close> from 1 to \<open>2 ^ 31\<close>, the key function as
  compiled, with \<^verbatim>\<open>arrlen = n\<close> (the value \<^verbatim>\<open>translate_segmentation\<close> passes), maps the
  valid patterns one to one onto the integers from 0 to \<open>n * (n + 1) / 2 - 1\<close>. The
  division by 2 is exact: for a valid pattern twice the quotient is the product of
  the formula, and the product the compiled code computes is even for every length
  and every \<^verbatim>\<open>arrlen\<close>.
\<close>

theorem calculate_pattern_hash_bijection:
  assumes "1 \<le> n" and "n \<le> 2 ^ 31"
  shows "bij_betw (\<lambda>p. calculate_pattern_hash_jit p n) {p. valid_pattern n p}
           {0..n * (n + 1) div 2 - 1} \<and>
         (valid_pattern n (pos, l) \<longrightarrow>
            2 * (calculate_pattern_hash_jit (pos, l) n - pos) = (l - 1) * (2 * n - (l - 2))) \<and>
         even (int64 (int64 (length' - 1) * int64 (int64 (2 * arrlen) - int64 (length' - 2))))"
proof -
  from assms have n: "0 \<le> n" by simp
  have "(\<lambda>p. calculate_pattern_hash p n) ` {p. valid_pattern n p} =
      set (map (\<lambda>p. calculate_pattern_hash p n) (canonical_patterns n))"
    by (simp add: set_canonical)
  also have "\<dots> = {0..n * (n + 1) div 2 - 1}"
    by (simp only: hash_canonical [OF n] set_upto)
  finally have "bij_betw (\<lambda>p. calculate_pattern_hash p n) {p. valid_pattern n p}
      {0..n * (n + 1) div 2 - 1}"
    using inj_on_hash [OF n] by (simp add: bij_betw_def)
  moreover have agree: "calculate_pattern_hash_jit p n = calculate_pattern_hash p n"
    if "p \<in> {p. valid_pattern n p}" for p
    using that calculate_pattern_hash_jit_eq [of n "fst p" "snd p"] assms(2) by simp
  ultimately have bij: "bij_betw (\<lambda>p. calculate_pattern_hash_jit p n) {p. valid_pattern n p}
      {0..n * (n + 1) div 2 - 1}"
    using bij_betw_cong [of "{p. valid_pattern n p}" "\<lambda>p. calculate_pattern_hash_jit p n"
        "\<lambda>p. calculate_pattern_hash p n" "{0..n * (n + 1) div 2 - 1}"]
    by blast
  have "even ((l - 1) * (2 * n - (l - 2)))" by simp
  then have "2 * ((l - 1) * (2 * n - (l - 2)) div 2) = (l - 1) * (2 * n - (l - 2))"
    by (rule dvd_mult_div_cancel)
  then have exact: "valid_pattern n (pos, l) \<longrightarrow>
      2 * (calculate_pattern_hash_jit (pos, l) n - pos) = (l - 1) * (2 * n - (l - 2))"
    using agree [of "(pos, l)"] by (simp add: calculate_pattern_hash_def)
  show ?thesis
    using bij exact even_product_jit [of length' arrlen] by simp
qed

theorem calculate_pattern_hash_bijection_witness:
  "(1::int) \<le> 3 \<and> (3::int) \<le> 2 ^ 31 \<and>
   bij_betw (\<lambda>p. calculate_pattern_hash_jit p 3) {p. valid_pattern 3 p} {0..5} \<and>
   valid_pattern 3 (1, 2) \<and>
   2 * (calculate_pattern_hash_jit (1, 2) 3 - 1) = (2 - 1) * (2 * 3 - (2 - 2))"
proof -
  have "valid_pattern 3 (1, 2)" by (simp add: valid_pattern_def)
  with calculate_pattern_hash_bijection [of 3 1 2 2 3] show ?thesis by simp
qed

text \<open>
  C3. For every block count of at least 1, \<^verbatim>\<open>create_pattern_generator\<close> yields the
  patterns in the canonical order (increasing length from 1 to the block count, and
  within a length increasing position from 0 to block count minus length); it yields
  \<open>n * (n + 1) / 2\<close> tuples, no tuple twice, and the tuples are exactly the valid
  patterns.
\<close>

theorem create_pattern_generator_enumerates:
  assumes "1 \<le> hb_n_blocks self"
  shows "create_pattern_generator self = canonical_patterns (hb_n_blocks self) \<and>
         int (length (create_pattern_generator self)) =
           hb_n_blocks self * (hb_n_blocks self + 1) div 2 \<and>
         distinct (create_pattern_generator self) \<and>
         set (create_pattern_generator self) = {p. valid_pattern (hb_n_blocks self) p}"
  using assms
  by (simp add: generator_canonical length_canonical distinct_canonical set_canonical)

theorem create_pattern_generator_enumerates_witness:
  "1 \<le> hb_n_blocks (init () 3 example_cost (\<lambda>p. 0)) \<and>
   create_pattern_generator (init () 3 example_cost (\<lambda>p. 0)) =
     [(0, 1), (1, 1), (2, 1), (0, 2), (1, 2), (0, 3)] \<and>
   int (length (create_pattern_generator (init () 3 example_cost (\<lambda>p. 0)))) = 6 \<and>
   distinct (create_pattern_generator (init () 3 example_cost (\<lambda>p. 0))) \<and>
   set (create_pattern_generator (init () 3 example_cost (\<lambda>p. 0))) = {p. valid_pattern 3 p}"
proof -
  have n: "hb_n_blocks (init () 3 example_cost (\<lambda>p. 0)) = 3"
    by (simp add: init_def)
  have gen: "create_pattern_generator (init () 3 example_cost (\<lambda>p. 0)) =
      [(0, 1), (1, 1), (2, 1), (0, 2), (1, 2), (0, 3)]"
    by (simp add: create_pattern_generator_def py_range_def n upto.simps)
  have "1 \<le> hb_n_blocks (init () 3 example_cost (\<lambda>p. 0))"
    by (simp add: n)
  from create_pattern_generator_enumerates [OF this, THEN conjunct2] show ?thesis
    by (simp add: n gen)
qed

subsection \<open>The loop of translate_segmentation\<close>

lemma hash_singleton: "calculate_pattern_hash (i, 1) arrlen = i"
  by (simp add: calculate_pattern_hash_def)

lemma emit_eq:
  assumes "ts_iseg s = int k - 1"
  shows "emit key s =
    (if k < length (ts_store s)
     then Inr (s\<lparr>ts_iseg := int k, ts_store := (ts_store s)[k := key]\<rparr>)
     else Inl IndexError)"
  using assms by (simp add: emit_def array_set_def)

lemma take_Suc_update: "k < length sto \<Longrightarrow> take (Suc k) (sto[k := v]) = take k sto @ [v]"
  by (simp add: take_Suc_conv_app_nth)

lemma finish_Cons:
  "finish arrlen i (x # xs) s =
     (case loop_body arrlen i x s of Inl e \<Rightarrow> Inl e | Inr s' \<Rightarrow> finish arrlen (i + 1) xs s')"
  by (simp add: finish_def split: sum.splits)

lemma store_keys_Cons:
  "k < length sto \<Longrightarrow> store_keys (Suc k) (sto[k := key]) ks = store_keys k sto (key # ks)"
  by (simp add: store_keys_def take_Suc_update)

lemma store_keys_outside:
  "\<not> k < length sto \<Longrightarrow> store_keys k sto (key # ks) = Inl IndexError"
  by (simp add: store_keys_def)

lemma last_element_eq:
  assumes "ts_iseg s = int k - 1"
  shows "last_element arrlen s =
    (case (if ts_length s > 1 then run_hash arrlen s
            else (case ts_i s of None \<Rightarrow> Inl UnboundLocalError | Some i \<Rightarrow> Inr (i + 1))) of
        Inl e \<Rightarrow> Inl e
      | Inr key \<Rightarrow> store_keys k (ts_store s) [key])"
  using assms
  by (auto simp: last_element_def emit_eq [of s k] slice_to_def store_keys_def take_Suc_update
      upd_conv_take_nth_drop nat_add_distrib split: sum.splits)

lemma finish_eq:
  assumes "ts_length s = l" and "1 \<le> l" and "ts_is_free s = (l = 1)"
    and "1 < l \<longrightarrow> ts_pos s = Some (i + 1 - l)"
    and "ts_iseg s = int k - 1"
    and "xs = [] \<longrightarrow> ts_i s = Some (i - 1)"
  shows "finish arrlen i xs s =
    store_keys k (ts_store s)
      (map (\<lambda>p. calculate_pattern_hash p arrlen) (patterns_from (i + 1 - l) l xs))"
  using assms
proof (induction xs arbitrary: i s l k)
  case Nil
  show ?case
  proof (cases "1 < l")
    case True
    with Nil show ?thesis
      by (simp add: finish_def last_element_eq [of s k] run_hash_def)
  next
    case False
    with Nil have l: "l = 1" by simp
    with Nil show ?thesis
      by (simp add: finish_def last_element_eq [of s k] hash_singleton)
  qed
next
  case (Cons x xs)
  have len: "ts_length s = l" and free: "ts_is_free s = (l = 1)" and l: "1 \<le> l"
    and pos: "1 < l \<longrightarrow> ts_pos s = Some (i + 1 - l)" and seg: "ts_iseg s = int k - 1"
    using Cons.prems by simp_all
  show ?case
  proof (cases "x = 1")
    case True
    define s' where "s' = s\<lparr>ts_i := Some i, ts_pos := Some (i + 1 - l), ts_is_free := False,
      ts_length := l + 1\<rparr>"
    have body: "loop_body arrlen i x s = Inr s'"
    proof (cases "l = 1")
      case True
      with \<open>x = 1\<close> len free show ?thesis
        by (simp add: loop_body_def Let_def s'_def)
    next
      case False
      with l pos have "ts_pos s = Some (i + 1 - l)" by simp
      with False \<open>x = 1\<close> len free show ?thesis
        by (cases s) (simp add: loop_body_def Let_def s'_def)
    qed
    have start: "i + 1 + 1 - (l + 1) = i + 1 - l" by simp
    have "finish arrlen (i + 1) xs s' =
      store_keys k (ts_store s')
        (map (\<lambda>p. calculate_pattern_hash p arrlen)
           (patterns_from (i + 1 + 1 - (l + 1)) (l + 1) xs))"
      using l seg by (intro Cons.IH) (simp_all add: s'_def)
    moreover have "ts_store s' = ts_store s" by (simp add: s'_def)
    ultimately have "finish arrlen (i + 1) xs s' =
      store_keys k (ts_store s)
        (map (\<lambda>p. calculate_pattern_hash p arrlen) (patterns_from (i + 1 - l) (l + 1) xs))"
      by (simp only: start)
    then show ?thesis
      using True unfolding finish_Cons body by simp
  next
    case False
    define key where "key = calculate_pattern_hash (i + 1 - l, l) arrlen"
    have spec: "map (\<lambda>p. calculate_pattern_hash p arrlen) (patterns_from (i + 1 - l) l (x # xs)) =
      key # map (\<lambda>p. calculate_pattern_hash p arrlen) (patterns_from (i + 1) 1 xs)"
      using False by (simp add: key_def)
    have body: "loop_body arrlen i x s =
      emit key (s\<lparr>ts_i := Some i, ts_length := 1, ts_is_free := True\<rparr>)"
    proof (cases "1 < l")
      case True
      with False len pos show ?thesis
        by (simp add: loop_body_def Let_def run_hash_def key_def)
    next
      case False
      with l have "l = 1" by simp
      with \<open>x \<noteq> 1\<close> len free show ?thesis
        by (cases s) (simp add: loop_body_def Let_def key_def hash_singleton)
    qed
    show ?thesis
    proof (cases "k < length (ts_store s)")
      case True
      define s' where "s' = s\<lparr>ts_i := Some i, ts_length := 1, ts_is_free := True,
        ts_iseg := int (Suc k) - 1, ts_store := (ts_store s)[k := key]\<rparr>"
      have start: "i + 1 + 1 - 1 = i + 1" by simp
      have "finish arrlen (i + 1) xs s' =
        store_keys (Suc k) (ts_store s')
          (map (\<lambda>p. calculate_pattern_hash p arrlen) (patterns_from (i + 1 + 1 - 1) 1 xs))"
        by (intro Cons.IH) (simp_all add: s'_def)
      moreover have "ts_store s' = (ts_store s)[k := key]" by (simp add: s'_def)
      ultimately have "finish arrlen (i + 1) xs s' =
        store_keys (Suc k) ((ts_store s)[k := key])
          (map (\<lambda>p. calculate_pattern_hash p arrlen) (patterns_from (i + 1) 1 xs))"
        by (simp only: start)
      moreover have "loop_body arrlen i x s = Inr s'"
        using True seg by (simp add: body emit_eq [of _ k] s'_def)
      ultimately show ?thesis
        using True unfolding finish_Cons spec by (simp add: store_keys_Cons)
    next
      case False
      then have "loop_body arrlen i x s = Inl IndexError"
        using seg by (simp add: body emit_eq [of _ k])
      then show ?thesis
        using False unfolding finish_Cons spec by (simp add: store_keys_outside)
    qed
  qed
qed

lemma translate_segmentation_eq:
  "translate_segmentation arr store =
     (if arr = [] then Inl UnboundLocalError
      else store_keys 0 store
             (map (\<lambda>p. calculate_pattern_hash p (int (length arr) + 1)) (decomposition arr)))"
proof (cases arr)
  case Nil
  then show ?thesis
    by (simp add: translate_segmentation_def last_element_def)
next
  case (Cons x xs)
  let ?s = "\<lparr>ts_is_free = True, ts_length = 1, ts_iseg = - 1, ts_pos = None, ts_i = None,
              ts_store = store\<rparr>"
  have "translate_segmentation arr store = finish (int (length arr) + 1) 0 arr ?s"
    by (simp add: translate_segmentation_def finish_def Let_def)
  also have "\<dots> = store_keys 0 (ts_store ?s)
      (map (\<lambda>p. calculate_pattern_hash p (int (length arr) + 1)) (patterns_from (0 + 1 - 1) 1 arr))"
    using Cons by (intro finish_eq) auto
  finally show ?thesis using Cons by (simp add: decomposition_def)
qed


subsection \<open>The decomposition of a segmentation\<close>

lemma tiles_patterns_from:
  "1 \<le> l \<Longrightarrow> tiles s (s + l + int (length xs)) (patterns_from s l xs)"
proof (induction xs arbitrary: s l)
  case Nil
  then show ?case by simp
next
  case (Cons x xs)
  show ?case
  proof (cases "x = 1")
    case True
    with Cons.IH [of "l + 1" s] Cons.prems show ?thesis by (simp add: algebra_simps)
  next
    case False
    with Cons.IH [of 1 "s + l"] Cons.prems show ?thesis by (simp add: algebra_simps)
  qed
qed

lemma tiles_decomposition: "tiles 0 (int (length arr) + 1) (decomposition arr)"
  using tiles_patterns_from [of 1 0 arr] by (simp add: decomposition_def add.commute)

lemma tiles_sum_lengths: "tiles a b ps \<Longrightarrow> sum_list (map snd ps) = b - a"
  by (induction ps arbitrary: a) auto

lemma tiles_valid: "tiles a b ps \<Longrightarrow> 0 \<le> a \<Longrightarrow> p \<in> set ps \<Longrightarrow> valid_pattern b p"
proof (induction ps arbitrary: a)
  case Nil
  then show ?case by simp
next
  case (Cons q ps)
  from Cons.prems have rest: "tiles (a + snd q) b ps" and q: "fst q = a" "1 \<le> snd q" by simp_all
  from rest have "sum_list (map snd ps) = b - (a + snd q)" by (rule tiles_sum_lengths)
  moreover have "0 \<le> sum_list (map snd ps)"
    using rest
  proof (induction ps arbitrary: a q)
    case Nil
    then show ?case by simp
  next
    case (Cons r rs)
    from Cons.prems have "tiles (a + snd q + snd r) b rs" "1 \<le> snd r" by simp_all
    with Cons.IH [of "a + snd q" r] show ?case by simp
  qed
  ultimately have "a + snd q \<le> b" by simp
  show ?case
  proof (cases "p = q")
    case True
    with q \<open>a + snd q \<le> b\<close> Cons.prems(2) show ?thesis by (simp add: valid_pattern_def)
  next
    case False
    with Cons.prems have "p \<in> set ps" by simp
    with Cons.IH [OF rest] q Cons.prems(2) show ?thesis by simp
  qed
qed

lemma length_patterns_from: "length (patterns_from s l xs) \<le> Suc (length xs)"
proof (induction xs arbitrary: s l)
  case Nil
  then show ?case by simp
next
  case (Cons x xs)
  from Cons [of s "l + 1"] Cons [of "s + l" 1] show ?case by simp
qed

lemma length_decomposition: "length (decomposition arr) \<le> Suc (length arr)"
  by (simp add: decomposition_def length_patterns_from)

lemma patterns_from_zeros:
  "patterns_from s 1 (replicate m 0) = map (\<lambda>j. (j, 1)) [s..s + int m]"
proof (induction m arbitrary: s)
  case 0
  then show ?case by simp
next
  case (Suc m)
  have "[s..s + int (Suc m)] = s # [s + 1..s + 1 + int m]"
    by (simp add: upto_rec1 [of s] algebra_simps)
  with Suc [of "s + 1"] show ?case by simp
qed

lemma patterns_from_ones: "patterns_from s l (replicate m 1) = [(s, l + int m)]"
  by (induction m arbitrary: l) (simp_all add: algebra_simps)


subsection \<open>The keys of a segmentation\<close>

lemma translate_segmentation_nonempty:
  assumes "arr \<noteq> []"
  shows "translate_segmentation arr store =
    store_keys 0 store
      (map (\<lambda>p. calculate_pattern_hash p (int (length arr) + 1)) (decomposition arr))"
  using assms by (simp add: translate_segmentation_eq)

lemma translate_segmentation_Inr_iff:
  "translate_segmentation arr store = Inr (store', keys) \<longleftrightarrow>
     arr \<noteq> [] \<and>
     keys = map (\<lambda>p. calculate_pattern_hash p (int (length arr) + 1)) (decomposition arr) \<and>
     length keys \<le> length store \<and>
     store' = keys @ drop (length keys) store"
  by (auto simp: translate_segmentation_eq store_keys_def)

text \<open>
  For two blocks or more (a decision sequence that is not empty) and a store of at
  least as many elements as there are blocks, \<^verbatim>\<open>translate_segmentation\<close> returns the
  keys of the patterns of the decomposition, with \<^verbatim>\<open>arrlen\<close> the number of blocks;
  these patterns partition the blocks with no gaps and no overlaps, and their lengths
  add up to the number of blocks.
\<close>

lemma translate_segmentation_partition:
  assumes "arr \<noteq> []" and "length arr < length store"
  shows "(\<exists>store'. translate_segmentation arr store =
            Inr (store', map (\<lambda>p. calculate_pattern_hash p (int (length arr) + 1))
                           (decomposition arr))) \<and>
         tiles 0 (int (length arr) + 1) (decomposition arr) \<and>
         sum_list (map snd (decomposition arr)) = int (length arr) + 1"
proof -
  have "length (decomposition arr) \<le> length store"
    using length_decomposition [of arr] assms(2) by simp
  then have "\<exists>store'. translate_segmentation arr store =
            Inr (store', map (\<lambda>p. calculate_pattern_hash p (int (length arr) + 1))
                           (decomposition arr))"
    using assms(1) by (simp add: translate_segmentation_Inr_iff)
  moreover have "sum_list (map snd (decomposition arr)) = int (length arr) + 1"
    using tiles_sum_lengths [OF tiles_decomposition [of arr]] by simp
  ultimately show ?thesis
    using tiles_decomposition [of arr] by simp
qed

text \<open>
  C2 at one block. The decision sequence of a one-block series is empty, and for it
  \<^verbatim>\<open>translate_segmentation\<close> returns no keys at all, whatever the store: the block 0
  is not covered. (Line 98 reads the loop variable \<^verbatim>\<open>i\<close>, which the loop never
  assigned.)
\<close>

theorem translate_segmentation_one_block_no_keys:
  "translate_segmentation [] store \<noteq> Inr (store', keys)"
  by (simp add: translate_segmentation_eq)

text \<open>
  C5. For one block, that is for the empty decision sequence,
  \<^verbatim>\<open>translate_segmentation\<close> raises UnboundLocalError instead of returning the key
  sequence \<open>[0]\<close>, and \<^verbatim>\<open>calculate_loss_function\<close> raises with it instead of
  returning the only entry of the table.
\<close>

theorem translate_segmentation_empty_decisions:
  "translate_segmentation [] store = Inl UnboundLocalError \<and>
   calculate_loss_function [] store hash_table = Inl UnboundLocalError"
  by (simp add: translate_segmentation_eq calculate_loss_function_def)

subsection \<open>The compiled translate_segmentation\<close>

lemma array_set_jit_eq:
  "array_set_jit sto (int k) key = take (length sto) (take k sto @ [key] @ drop (Suc k) sto)"
proof (cases "k < length sto")
  case True
  then show ?thesis by (simp add: array_set_jit_def upd_conv_take_nth_drop)
next
  case False
  then show ?thesis by (simp add: array_set_jit_def)
qed

lemma store_keys_jit_Cons:
  "store_keys_jit (Suc k) (array_set_jit sto (int k) key) ks = store_keys_jit k sto (key # ks)"
proof (cases "k < length sto")
  case True
  then have "array_set_jit sto (int k) key = sto[k := key]"
    by (simp add: array_set_jit_def)
  with True show ?thesis
    by (simp add: store_keys_jit_def take_Suc_update)
next
  case False
  then have "array_set_jit sto (int k) key = sto"
    by (simp add: array_set_jit_def)
  with False show ?thesis
    by (simp add: store_keys_jit_def)
qed

lemma emit_jit_eq:
  assumes "js_iseg s = int k - 1"
  shows "emit_jit key s =
    s\<lparr>js_iseg := int (Suc k) - 1, js_store := array_set_jit (js_store s) (int k) key\<rparr>"
  using assms by (simp add: emit_jit_def)

lemma last_element_jit_eq:
  assumes "js_iseg s = int k - 1"
  shows "last_element_jit arrlen s =
    store_keys_jit k (js_store s)
      [if js_length s > 1 then calculate_pattern_hash_jit (js_pos s, js_length s) arrlen
       else js_i s + 1]"
proof -
  have "slice_to xs (int k + 1) = take (Suc k) xs" for xs :: "int list"
    by (simp add: slice_to_def nat_add_distrib)
  then show ?thesis
    using assms
    by (simp add: last_element_jit_def Let_def emit_jit_def array_set_jit_eq store_keys_jit_def)
qed

lemma finish_jit_Cons:
  "finish_jit arrlen i (x # xs) s = finish_jit arrlen (i + 1) xs (loop_body_jit arrlen i x s)"
  by (simp add: finish_jit_def)

lemma finish_jit_eq:
  assumes "js_length s = l" and "1 \<le> l" and "js_is_free s = (l = 1)"
    and "1 < l \<longrightarrow> js_pos s = i + 1 - l"
    and "js_iseg s = int k - 1"
    and "xs = [] \<longrightarrow> js_i s = i - 1"
  shows "finish_jit arrlen i xs s =
    store_keys_jit k (js_store s) (map (emitted_key arrlen) (patterns_from (i + 1 - l) l xs))"
  using assms
proof (induction xs arbitrary: i s l k)
  case Nil
  then show ?case
    by (auto simp: finish_jit_def last_element_jit_eq [of s k] emitted_key_def)
next
  case (Cons x xs)
  have len: "js_length s = l" and free: "js_is_free s = (l = 1)" and l: "1 \<le> l"
    and pos: "1 < l \<longrightarrow> js_pos s = i + 1 - l" and seg: "js_iseg s = int k - 1"
    using Cons.prems by simp_all
  show ?case
  proof (cases "x = 1")
    case True
    define s' where "s' = s\<lparr>js_i := i, js_pos := i + 1 - l, js_is_free := False,
      js_length := l + 1\<rparr>"
    have body: "loop_body_jit arrlen i x s = s'"
    proof (cases "l = 1")
      case True
      with \<open>x = 1\<close> len free show ?thesis
        by (simp add: loop_body_jit_def Let_def s'_def)
    next
      case False
      with l pos have "js_pos s = i + 1 - l" by simp
      with False \<open>x = 1\<close> len free show ?thesis
        by (cases s) (simp add: loop_body_jit_def Let_def s'_def)
    qed
    have start: "i + 1 + 1 - (l + 1) = i + 1 - l" by simp
    have "finish_jit arrlen (i + 1) xs s' =
      store_keys_jit k (js_store s')
        (map (emitted_key arrlen) (patterns_from (i + 1 + 1 - (l + 1)) (l + 1) xs))"
      using l seg by (intro Cons.IH) (simp_all add: s'_def)
    moreover have "js_store s' = js_store s" by (simp add: s'_def)
    ultimately have "finish_jit arrlen (i + 1) xs s' =
      store_keys_jit k (js_store s)
        (map (emitted_key arrlen) (patterns_from (i + 1 - l) (l + 1) xs))"
      by (simp only: start)
    then show ?thesis
      using True unfolding finish_jit_Cons body by simp
  next
    case False
    define key where "key = emitted_key arrlen (i + 1 - l, l)"
    have spec: "map (emitted_key arrlen) (patterns_from (i + 1 - l) l (x # xs)) =
      key # map (emitted_key arrlen) (patterns_from (i + 1) 1 xs)"
      using False by (simp add: key_def)
    define s' where "s' = s\<lparr>js_i := i, js_length := 1, js_is_free := True,
      js_iseg := int (Suc k) - 1, js_store := array_set_jit (js_store s) (int k) key\<rparr>"
    have body: "loop_body_jit arrlen i x s = s'"
    proof (cases "1 < l")
      case True
      with False len pos seg show ?thesis
        by (simp add: loop_body_jit_def Let_def key_def emitted_key_def emit_jit_eq [of _ k]
            s'_def)
    next
      case False
      with l have "l = 1" by simp
      with \<open>x \<noteq> 1\<close> len free seg show ?thesis
        by (cases s) (simp add: loop_body_jit_def Let_def key_def emitted_key_def
            emit_jit_def s'_def)
    qed
    have start: "i + 1 + 1 - 1 = i + 1" by simp
    have "finish_jit arrlen (i + 1) xs s' =
      store_keys_jit (Suc k) (js_store s')
        (map (emitted_key arrlen) (patterns_from (i + 1 + 1 - 1) 1 xs))"
      by (intro Cons.IH) (simp_all add: s'_def)
    moreover have "js_store s' = array_set_jit (js_store s) (int k) key" by (simp add: s'_def)
    ultimately have "finish_jit arrlen (i + 1) xs s' =
      store_keys_jit (Suc k) (array_set_jit (js_store s) (int k) key)
        (map (emitted_key arrlen) (patterns_from (i + 1) 1 xs))"
      by (simp only: start)
    then show ?thesis
      unfolding finish_jit_Cons body spec by (simp add: store_keys_jit_Cons)
  qed
qed

text \<open>The keys the compiled function stores for a sequence of decisions.\<close>

lemma translate_segmentation_jit_eq:
  "translate_segmentation_jit arr store =
     store_keys_jit 0 store
       (if arr = [] then [1]
        else map (emitted_key (int (length arr) + 1)) (decomposition arr))"
proof (cases arr)
  case Nil
  let ?s = "\<lparr>js_is_free = True, js_length = 1, js_iseg = - 1, js_pos = 0, js_i = 0,
              js_store = store\<rparr>"
  have "last_element_jit 1 ?s = store_keys_jit 0 (js_store ?s)
      [if js_length ?s > 1 then calculate_pattern_hash_jit (js_pos ?s, js_length ?s) 1
       else js_i ?s + 1]"
    by (intro last_element_jit_eq) simp
  with Nil show ?thesis
    by (simp add: translate_segmentation_jit_def)
next
  case (Cons x xs)
  let ?s = "\<lparr>js_is_free = True, js_length = 1, js_iseg = - 1, js_pos = 0, js_i = 0,
              js_store = store\<rparr>"
  have "translate_segmentation_jit arr store = finish_jit (int (length arr) + 1) 0 arr ?s"
    by (simp add: translate_segmentation_jit_def finish_jit_def Let_def)
  also have "\<dots> = store_keys_jit 0 (js_store ?s)
      (map (emitted_key (int (length arr) + 1)) (patterns_from (0 + 1 - 1) 1 arr))"
    using Cons by (intro finish_jit_eq) auto
  finally show ?thesis using Cons by (simp add: decomposition_def)
qed

text \<open>
  For the empty decision sequence the compiled function stores and returns the key
  1: the loop variable \<^verbatim>\<open>i\<close> that line 98 reads is still zero.
\<close>

lemma translate_segmentation_jit_empty_decisions:
  "translate_segmentation_jit [] (x # store) = (1 # store, [1])"
  by (simp add: translate_segmentation_jit_eq store_keys_jit_def)



lemma emitted_key_valid:
  assumes "valid_pattern n p" and "n \<le> 2 ^ 31"
  shows "emitted_key n p = calculate_pattern_hash p n"
proof (cases "1 < snd p")
  case True
  with calculate_pattern_hash_jit_eq [of n "fst p" "snd p"] assms show ?thesis
    by (simp add: emitted_key_def)
next
  case False
  with assms(1) have "snd p = 1" by (simp add: valid_pattern_def)
  then have "p = (fst p, 1)" by (metis prod.collapse)
  with hash_singleton [of "fst p" n] False show ?thesis
    by (simp add: emitted_key_def)
qed

text \<open>
  The two readings agree: for decisions that are not empty, at most \<open>2 ^ 31\<close> blocks
  and a store that holds the keys, the Python reading returns what the compiled
  function returns.
\<close>

lemma translate_segmentation_jit_agrees:
  assumes "arr \<noteq> []" and "int (length arr) + 1 \<le> 2 ^ 31"
    and "length (decomposition arr) \<le> length store"
  shows "translate_segmentation arr store = Inr (translate_segmentation_jit arr store)"
proof -
  have "emitted_key (int (length arr) + 1) p = calculate_pattern_hash p (int (length arr) + 1)"
    if "p \<in> set (decomposition arr)" for p
    using tiles_valid [OF tiles_decomposition [of arr] _ that] assms(2)
    by (intro emitted_key_valid) simp_all
  then have "map (emitted_key (int (length arr) + 1)) (decomposition arr) =
      map (\<lambda>p. calculate_pattern_hash p (int (length arr) + 1)) (decomposition arr)"
    by simp
  then show ?thesis
    using assms(1,3)
    by (simp add: translate_segmentation_eq translate_segmentation_jit_eq store_keys_def
        store_keys_jit_def Let_def)
qed

subsection \<open>The loss\<close>

lemma sum_lookup_eq:
  fixes hash_table :: "int \<rightharpoonup> 'c::monoid_add"
  shows "sum_lookup hash_table acc ks =
    (if \<exists>k\<in>set ks. hash_table k = None then Inl KeyError
     else Inr (acc + sum_list (map (\<lambda>k. the (hash_table k)) ks)))"
proof (induction ks arbitrary: acc)
  case Nil
  then show ?case by simp
next
  case (Cons k ks)
  show ?case
  proof (cases "hash_table k")
    case None
    then show ?thesis by simp
  next
    case (Some v)
    with Cons [of "acc + v"] show ?thesis by (simp add: add.assoc)
  qed
qed

lemma translate_segmentation_errors:
  "translate_segmentation arr store = Inl e \<Longrightarrow> e = UnboundLocalError \<or> e = IndexError"
  by (auto simp: translate_segmentation_eq store_keys_def split: if_splits)

lemma calculate_loss_function_jit_eq:
  fixes hash_table :: "int \<rightharpoonup> 'c::monoid_add"
  shows "calculate_loss_function_jit segmentation store hash_table =
    (if \<exists>k\<in>set (snd (translate_segmentation_jit segmentation store)). hash_table k = None
     then Inl KeyError
     else Inr (fst (translate_segmentation_jit segmentation store),
               sum_list (map (\<lambda>k. the (hash_table k))
                             (snd (translate_segmentation_jit segmentation store)))))"
  by (simp add: calculate_loss_function_jit_def sum_lookup_eq split: prod.splits)

text \<open>
  C9. \<^verbatim>\<open>calculate_loss_function\<close>, run with the compiled \<^verbatim>\<open>translate_segmentation\<close>,
  raises KeyError (the MissingKey of the specification) if and only if one of the
  keys that \<^verbatim>\<open>translate_segmentation\<close> returns for the decisions is not in the table;
  otherwise it returns the sum of the table's values at those keys. This holds for
  every decision sequence, every store and every table.
\<close>

theorem calculate_loss_function_missing_key:
  fixes hash_table :: "int \<rightharpoonup> 'c::monoid_add"
  shows "(calculate_loss_function_jit segmentation store hash_table = Inl KeyError \<longleftrightarrow>
            (\<exists>k\<in>set (snd (translate_segmentation_jit segmentation store)).
               hash_table k = None)) \<and>
         ((\<forall>k\<in>set (snd (translate_segmentation_jit segmentation store)).
             hash_table k \<noteq> None) \<longrightarrow>
          calculate_loss_function_jit segmentation store hash_table =
            Inr (fst (translate_segmentation_jit segmentation store),
                 sum_list (map (\<lambda>k. the (hash_table k))
                               (snd (translate_segmentation_jit segmentation store)))))"
  by (auto simp: calculate_loss_function_jit_eq)

theorem calculate_loss_function_missing_key_witness:
  "snd (translate_segmentation_jit [1, 0, 1] [0, 0, 0, 0]) = [4, 6] \<and>
   calculate_loss_function_jit [1, 0, 1] [0, 0, 0, 0] [4 \<mapsto> 10, 6 \<mapsto> 5] =
     Inr ([4, 6, 0, 0], 15 :: int) \<and>
   calculate_loss_function_jit [1, 0, 1] [0, 0, 0, 0] [4 \<mapsto> 10 :: int] = Inl KeyError \<and>
   snd (translate_segmentation_jit [] [0]) = [1] \<and>
   calculate_loss_function_jit [] [0] [0 \<mapsto> 10 :: int] = Inl KeyError \<and>
   calculate_loss_function_jit [] [0] [1 \<mapsto> 7 :: int] = Inr ([1], 7)"
proof -
  have run: "translate_segmentation_jit [1, 0, 1] [0, 0, 0, 0] = ([4, 6, 0, 0], [4, 6])"
    by code_simp
  have empty: "translate_segmentation_jit [] [0] = ([1], [1])"
    by code_simp
  from calculate_loss_function_missing_key
      [of "[1, 0, 1]" "[0, 0, 0, 0]" "[4 \<mapsto> 10, 6 \<mapsto> 5 :: int]"]
    calculate_loss_function_missing_key [of "[1, 0, 1]" "[0, 0, 0, 0]" "[4 \<mapsto> 10 :: int]"]
    calculate_loss_function_missing_key [of "[]" "[0]" "[0 \<mapsto> 10 :: int]"]
    calculate_loss_function_missing_key [of "[]" "[0]" "[1 \<mapsto> 7 :: int]"]
  show ?thesis by (simp add: run empty)
qed

subsection \<open>The table\<close>

lemma foldl_update_map_of:
  "foldl (\<lambda>table pattern. table(f pattern \<mapsto> g pattern)) m ps =
     m ++ map_of (rev (map (\<lambda>p. (f p, g p)) ps))"
proof (induction ps arbitrary: m)
  case Nil
  then show ?case by simp
next
  case (Cons p ps)
  have "m(f p \<mapsto> g p) ++ map_of (rev (map (\<lambda>p. (f p, g p)) ps)) =
      m ++ map_of (rev (map (\<lambda>p. (f p, g p)) (p # ps)))"
    by (rule ext) (simp add: map_add_def split: option.splits)
  then show ?case
    unfolding foldl_Cons Cons .
qed

lemma create_table_map_of:
  "hb_table (create_table self) =
     Some (map_of (rev (map (\<lambda>p. (hb_hfunc self p, hb_func self p (hb_series self)))
                            (create_pattern_generator self))))"
  by (simp add: create_table_def foldl_update_map_of)

text \<open>
  C6, amended. \<^verbatim>\<open>create_table\<close> has no check for a key that comes twice and never
  fails on one: it always sets a table, and under each key the table holds the cost
  of the last enumerated pattern with that key (a lookup in the reversed list of the
  key and cost pairs finds the last pair first). Costs stored earlier under the same
  key are overwritten.
\<close>

theorem create_table_last_wins:
  "hb_table (create_table self) =
     Some (map_of (rev (map (\<lambda>p. (hb_hfunc self p, hb_func self p (hb_series self)))
                            (create_pattern_generator self))))"
  by (rule create_table_map_of)

text \<open>
  C6, as the specification states it, fails: with two blocks and a hash function
  that gives all three patterns the key 0, the build returns a table, and the table
  keeps one of the three costs, that of the last pattern (0, 2).
\<close>

theorem create_table_collision_builds:
  "hb_table (create_table (init () 2 example_cost colliding_hfunc)) = Some [0 \<mapsto> 20]"
  by (simp add: create_table_def create_pattern_generator_def py_range_def init_def
      upto.simps colliding_hfunc_def example_cost_def)

lemma create_table_lookup:
  assumes "hb_table (create_table self) = Some hash_table"
    and "distinct (map (hb_hfunc self) (create_pattern_generator self))"
    and "p \<in> set (create_pattern_generator self)"
  shows "hash_table (hb_hfunc self p) = Some (hb_func self p (hb_series self))"
proof -
  let ?xys = "rev (map (\<lambda>p. (hb_hfunc self p, hb_func self p (hb_series self)))
                       (create_pattern_generator self))"
  have "hash_table = map_of ?xys"
    using assms(1) by (simp add: create_table_map_of)
  moreover have "distinct (map fst ?xys)"
    using assms(2) by (simp add: rev_map [symmetric] comp_def)
  moreover have "(hb_hfunc self p, hb_func self p (hb_series self)) \<in> set ?xys"
    using assms(3) by auto
  ultimately show ?thesis by (simp add: map_of_is_SomeI)
qed

lemma canonical_table_lookup:
  assumes "hb_table (create_table self) = Some hash_table"
    and "hb_hfunc self = (\<lambda>p. calculate_pattern_hash p (hb_n_blocks self))"
    and "0 \<le> hb_n_blocks self"
    and "valid_pattern (hb_n_blocks self) p"
  shows "hash_table (calculate_pattern_hash p (hb_n_blocks self)) =
           Some (hb_func self p (hb_series self))"
proof -
  have "distinct (map (hb_hfunc self) (create_pattern_generator self))"
    using assms(2,3) by (simp add: generator_canonical hash_canonical)
  moreover have "p \<in> set (create_pattern_generator self)"
    using assms(4) by (simp add: generator_canonical set_canonical)
  ultimately show ?thesis
    using create_table_lookup [OF assms(1), of p] assms(2) by simp
qed


lemma calculate_loss_function_eq:
  fixes hash_table :: "int \<rightharpoonup> 'c::monoid_add"
  assumes "translate_segmentation segmentation store = Inr (store', keys)"
  shows "calculate_loss_function segmentation store hash_table =
    (if \<exists>k\<in>set keys. hash_table k = None then Inl KeyError
     else Inr (store', sum_list (map (\<lambda>k. the (hash_table k)) keys)))"
  using assms by (simp add: calculate_loss_function_def sum_lookup_eq)

text \<open>
  With a table built with \<^verbatim>\<open>arrlen\<close> the number of blocks, the loss of a segmentation
  of two blocks or more is the sum of the costs of the patterns of its decomposition.
\<close>

lemma loss_decomposition:
  fixes self :: "('s, 'c::monoid_add) hashbrown"
  assumes tbl: "hb_table (create_table self) = Some hash_table"
    and hfunc: "hb_hfunc self = (\<lambda>p. calculate_pattern_hash p (hb_n_blocks self))"
    and n: "hb_n_blocks self = int (length arr) + 1"
    and arr: "arr \<noteq> []"
    and fits: "length (decomposition arr) \<le> length store"
  shows "\<exists>store'. calculate_loss_function arr store hash_table =
           Inr (store', sum_list (map (\<lambda>p. hb_func self p (hb_series self)) (decomposition arr)))"
proof -
  let ?keys = "map (\<lambda>p. calculate_pattern_hash p (int (length arr) + 1)) (decomposition arr)"
  have keys: "translate_segmentation arr store = Inr (?keys @ drop (length ?keys) store, ?keys)"
    using arr fits by (simp add: translate_segmentation_Inr_iff)
  have lookup: "hash_table (calculate_pattern_hash p (int (length arr) + 1)) =
      Some (hb_func self p (hb_series self))" if "p \<in> set (decomposition arr)" for p
  proof -
    have "valid_pattern (int (length arr) + 1) p"
      using tiles_valid [OF tiles_decomposition [of arr] _ that] by simp
    with canonical_table_lookup [OF tbl hfunc, of p] n show ?thesis by simp
  qed
  then have present: "\<not> (\<exists>k\<in>set ?keys. hash_table k = None)" by auto
  have "map (\<lambda>k. the (hash_table k)) ?keys =
      map (\<lambda>p. hb_func self p (hb_series self)) (decomposition arr)"
    using lookup by simp
  then have vals: "sum_list (map (\<lambda>k. the (hash_table k)) ?keys) =
      sum_list (map (\<lambda>p. hb_func self p (hb_series self)) (decomposition arr))"
    by (simp only:)
  have "calculate_loss_function arr store hash_table =
      Inr (?keys @ drop (length ?keys) store, sum_list (map (\<lambda>k. the (hash_table k)) ?keys))"
    using calculate_loss_function_eq [OF keys, of hash_table] present by (simp only: if_False)
  then show ?thesis
    unfolding vals by (rule exI)
qed

text \<open>
  C4, amended. For \<open>n\<close> blocks, \<open>n\<close> at least 2, a table built by \<^verbatim>\<open>create_table\<close>
  with the hash function \<^verbatim>\<open>calculate_pattern_hash\<close> at \<^verbatim>\<open>arrlen = n\<close> (the value
  \<^verbatim>\<open>translate_segmentation\<close> uses), and a store of at least \<open>n\<close> elements: the loss
  of the all-zero decisions of length \<open>n - 1\<close> is the sum of the costs of the \<open>n\<close>
  patterns \<open>(i, 1)\<close>, and the loss of the all-one decisions is the cost of the
  pattern \<open>(0, n)\<close>.
\<close>

theorem loss_all_zero_all_one:
  fixes self :: "('s, 'c::monoid_add) hashbrown"
  assumes "2 \<le> n"
    and "hb_n_blocks self = int n"
    and "hb_hfunc self = (\<lambda>p. calculate_pattern_hash p (int n))"
    and "hb_table (create_table self) = Some hash_table"
    and "n \<le> length store"
  shows "(\<exists>store'. calculate_loss_function (replicate (n - 1) 0) store hash_table =
            Inr (store', sum_list (map (\<lambda>i. hb_func self (i, 1) (hb_series self)) [0..int n - 1]))) \<and>
         (\<exists>store'. calculate_loss_function (replicate (n - 1) 1) store hash_table =
            Inr (store', hb_func self (0, int n) (hb_series self)))"
proof -
  from assms(1) have n1: "int (n - Suc 0) = int n - 1" by simp
  have zeros: "decomposition (replicate (n - Suc 0) 0) = map (\<lambda>j. (j, 1)) [0..int n - 1]"
    using patterns_from_zeros [of 0 "n - 1"] by (simp add: decomposition_def n1)
  have ones: "decomposition (replicate (n - Suc 0) 1) = [(0, int n)]"
    using patterns_from_ones [of 0 1 "n - 1"] by (simp add: decomposition_def n1)
  have fits: "length (decomposition (replicate (n - 1) x)) \<le> length store" for x :: int
    using length_decomposition [of "replicate (n - 1) x"] assms(1,5) by simp
  have "\<exists>store'. calculate_loss_function (replicate (n - 1) 0) store hash_table =
      Inr (store', sum_list (map (\<lambda>p. hb_func self p (hb_series self))
                              (decomposition (replicate (n - 1) 0))))"
    using assms fits by (intro loss_decomposition) (simp_all add: n1)
  moreover have "\<exists>store'. calculate_loss_function (replicate (n - 1) 1) store hash_table =
      Inr (store', sum_list (map (\<lambda>p. hb_func self p (hb_series self))
                              (decomposition (replicate (n - 1) 1))))"
    using assms fits by (intro loss_decomposition) (simp_all add: n1)
  ultimately show ?thesis
    by (simp add: zeros ones comp_def)
qed


theorem loss_all_zero_all_one_witness:
  "(2::nat) \<le> 2 \<and>
   hb_table (create_table (init () 2 example_cost (\<lambda>p. calculate_pattern_hash p 2))) =
     Some [0 \<mapsto> 10, 1 \<mapsto> 11, 2 \<mapsto> 20] \<and>
   (\<exists>store'. calculate_loss_function [0] [0, 0] [0 \<mapsto> 10, 1 \<mapsto> 11, 2 \<mapsto> 20] =
      Inr (store', 21 :: int)) \<and>
   (\<exists>store'. calculate_loss_function [1] [0, 0] [0 \<mapsto> 10, 1 \<mapsto> 11, 2 \<mapsto> 20] =
      Inr (store', 20 :: int))"
proof -
  let ?self = "init () 2 example_cost (\<lambda>p. calculate_pattern_hash p 2)"
  have tbl: "hb_table (create_table ?self) = Some [0 \<mapsto> 10, 1 \<mapsto> 11, 2 \<mapsto> 20]"
    by (simp add: create_table_def create_pattern_generator_def py_range_def init_def
        upto.simps calculate_pattern_hash_def example_cost_def)
  have "hb_n_blocks ?self = int 2" and "hb_hfunc ?self = (\<lambda>p. calculate_pattern_hash p (int 2))"
    by (simp_all add: init_def)
  from loss_all_zero_all_one [OF _ this tbl, of "[0, 0]"] tbl show ?thesis
    by (simp add: init_def example_cost_def upto.simps)
qed

text \<open>
  C4, as the specification states it, fails: for two blocks and the hash function of
  the specification (\<^verbatim>\<open>arrlen = n_blocks - 1\<close>), the table has the two keys 0 and 1,
  the cost of the pattern (1, 1) having been overwritten by that of (0, 2). The
  all-one decisions ask for the key 2 and raise KeyError, and the all-zero decisions
  give 30, the costs of (0, 1) and (0, 2), where the two single blocks cost 21.
\<close>

theorem spec_hash_table_loss:
  "hb_table (create_table (init () 2 example_cost (spec_hfunc 2))) = Some [0 \<mapsto> 10, 1 \<mapsto> 20] \<and>
   calculate_loss_function [1] [0, 0] [0 \<mapsto> 10, 1 \<mapsto> 20 :: int] = Inl KeyError \<and>
   calculate_loss_function [0] [0, 0] [0 \<mapsto> 10, 1 \<mapsto> 20 :: int] = Inr ([0, 1], 30) \<and>
   example_cost (0, 1) () + example_cost (1, 1) () = 21 \<and>
   example_cost (0, 2) () = 20"
  by (simp add: create_table_def create_pattern_generator_def py_range_def init_def
      upto.simps spec_hfunc_def hash_pattern_def calculate_pattern_hash_def example_cost_def
      calculate_loss_function_def translate_segmentation_eq store_keys_def decomposition_def)

subsection \<open>Block indices\<close>

lemma length_cumsum_from: "length (cumsum_from acc xs) = length xs"
  by (induction xs arbitrary: acc) simp_all

lemma nth_cumsum_from:
  "i < length xs \<Longrightarrow> cumsum_from acc xs ! i = acc + sum_list (take (Suc i) xs)"
proof (induction xs arbitrary: acc i)
  case Nil
  then show ?case by simp
next
  case (Cons x xs)
  show ?case
  proof (cases i)
    case 0
    then show ?thesis by simp
  next
    case (Suc j)
    with Cons.prems have "j < length xs" by simp
    from Cons.IH [OF this, of "acc + x"] Suc show ?thesis by (simp add: add.assoc)
  qed
qed

lemma nth_div_points:
  "i \<le> length sizes \<Longrightarrow> cumsum ([0] @ sizes) ! i = sum_list (take i sizes)"
  using nth_cumsum_from [of i "0 # sizes" 0] by (simp add: cumsum_def)

lemma sum_take_sizes:
  assumes "i \<le> n" and "r \<le> n"
  shows "sum_list (take i (replicate r (Suc q) @ replicate (n - r) q)) = i * q + min i r"
proof (cases "i \<le> r")
  case True
  then show ?thesis by (simp add: sum_list_replicate min_def)
next
  case False
  then have "min (i - r) (n - r) = i - r" using assms by simp
  with False assms show ?thesis
    by (simp add: sum_list_replicate min_def algebra_simps)
qed

lemma block_start_n: "0 < n \<Longrightarrow> block_start len n n = len"
proof -
  assume "0 < n"
  then have "len mod n < n" by simp
  then have "min n (len mod n) = len mod n" by simp
  then show ?thesis by (simp add: block_start_def)
qed

lemma block_start_Suc:
  "block_start len n (Suc i) = block_start len n i + len div n + (if i < len mod n then 1 else 0)"
  by (simp add: block_start_def min_def)

lemma block_start_mono: "i \<le> j \<Longrightarrow> block_start len n i \<le> block_start len n j"
  by (simp add: block_start_def add_mono mult_le_mono1 min.mono)

lemma length_arange: "length (arange n) = n"
  by (simp add: arange_def)

lemma slice_arange:
  "b \<le> n \<Longrightarrow> drop a (take b (arange n)) = map int [a..<b]"
  by (simp add: arange_def take_map drop_map)

lemma array_split_arange:
  assumes "0 < n"
  shows "array_split (arange len) (int n) =
    Inr (map (\<lambda>i. map int [block_start len n i..<block_start len n (Suc i)]) [0..<n])"
proof -
  let ?sizes = "replicate (len mod n) (len div n + 1) @ replicate (n - len mod n) (len div n)"
  have r: "len mod n \<le> n" using assms by simp
  have points: "cumsum ([0] @ ?sizes) ! i = block_start len n i" if "i \<le> n" for i
    using that r nth_div_points [of i ?sizes] sum_take_sizes [of i n "len mod n" "len div n"]
    by (simp add: block_start_def)
  have "map (\<lambda>i. drop (cumsum ([0] @ ?sizes) ! i) (take (cumsum ([0] @ ?sizes) ! (i + 1)) (arange len)))
          [0..<n] =
        map (\<lambda>i. map int [block_start len n i..<block_start len n (Suc i)]) [0..<n]"
  proof (rule map_cong [OF refl])
    fix i assume "i \<in> set [0..<n]"
    then have i: "i < n" by simp
    have "block_start len n (Suc i) \<le> block_start len n n"
      using i by (intro block_start_mono) simp
    then have "block_start len n (Suc i) \<le> len"
      using assms by (simp add: block_start_n)
    then show "drop (cumsum ([0] @ ?sizes) ! i) (take (cumsum ([0] @ ?sizes) ! (i + 1)) (arange len)) =
        map int [block_start len n i..<block_start len n (Suc i)]"
      using i points [of i] points [of "Suc i"] by (simp add: slice_arange)
  qed
  then show ?thesis
    using assms by (simp add: array_split_def Let_def length_arange)
qed


lemma comprehension_map:
  "(\<And>x. x \<in> set xs \<Longrightarrow> f (h x) = Inr (g x)) \<Longrightarrow>
     comprehension f (map h xs) = Inr (map g xs)"
  by (induction xs) simp_all

lemma first_last_range: "a < b \<Longrightarrow> first_last (map int [a..<b]) = Inr (int a, int b - 1)"
proof -
  assume "a < b"
  then have "[a..<b] = a # [Suc a..<b]" by (rule upt_conv_Cons)
  moreover have "last (map int [a..<b]) = int b - 1"
    using \<open>a < b\<close> by (simp add: last_map of_nat_diff)
  ultimately show ?thesis
    by (simp add: first_last_def del: upt_Suc)
qed

lemma block_start_less:
  "n \<le> len \<Longrightarrow> 0 < n \<Longrightarrow> block_start len n i < block_start len n (Suc i)"
proof -
  assume "n \<le> len" and "0 < n"
  then have "0 < len div n" by (simp add: div_greater_zero_iff)
  then show ?thesis by (simp add: block_start_Suc)
qed

lemma calculate_block_indices_eq:
  assumes "0 < n" and "n \<le> len"
  shows "calculate_block_indices len (int n) =
    Inr (map (\<lambda>i. (int (block_start len n i), int (block_start len n (Suc i)) - 1)) [0..<n])"
proof -
  have "comprehension first_last
      (map (\<lambda>i. map int [block_start len n i..<block_start len n (Suc i)]) [0..<n]) =
    Inr (map (\<lambda>i. (int (block_start len n i), int (block_start len n (Suc i)) - 1)) [0..<n])"
    using assms by (intro comprehension_map first_last_range block_start_less)
  then show ?thesis
    using assms by (simp add: calculate_block_indices_def array_split_arange)
qed

text \<open>
  C7. For a block count from 1 to the length of the series,
  \<^verbatim>\<open>calculate_block_indices\<close> returns one pair per block; the first pair starts at
  0, the last pair ends at the last index of the series, each pair starts one after
  the end of the pair before it, no pair is empty, and of two blocks the earlier one
  is at least as large as the later one and at most one element larger.
\<close>

theorem calculate_block_indices_partition:
  assumes "1 \<le> n_blocks" and "n_blocks \<le> int series_length"
  shows "\<exists>block_indices.
    calculate_block_indices series_length n_blocks = Inr block_indices \<and>
    int (length block_indices) = n_blocks \<and>
    fst (block_indices ! 0) = 0 \<and>
    snd (last block_indices) = int series_length - 1 \<and>
    (\<forall>i. Suc i < length block_indices \<longrightarrow>
       fst (block_indices ! Suc i) = snd (block_indices ! i) + 1) \<and>
    (\<forall>i < length block_indices. fst (block_indices ! i) \<le> snd (block_indices ! i)) \<and>
    (\<forall>i j. i \<le> j \<and> j < length block_indices \<longrightarrow>
       snd (block_indices ! j) - fst (block_indices ! j)
         \<le> snd (block_indices ! i) - fst (block_indices ! i) \<and>
       snd (block_indices ! i) - fst (block_indices ! i)
         \<le> snd (block_indices ! j) - fst (block_indices ! j) + 1)"
proof -
  define n where "n = nat n_blocks"
  define len where "len = series_length"
  have n: "0 < n" "n \<le> len" "n_blocks = int n"
    using assms by (simp_all add: n_def len_def)
  let ?bs = "map (\<lambda>i. (int (block_start len n i), int (block_start len n (Suc i)) - 1)) [0..<n]"
  have result: "calculate_block_indices series_length n_blocks = Inr ?bs"
    using calculate_block_indices_eq [OF n(1,2)] n(3) by (simp add: len_def)
  have size: "snd (?bs ! i) - fst (?bs ! i) = int (len div n) - (if i < len mod n then 0 else 1)"
    if "i < n" for i
    using that by (simp add: block_start_Suc)
  have "int (length ?bs) = n_blocks" using n by simp
  moreover have "fst (?bs ! 0) = 0"
    using n(1) by (simp add: block_start_def)
  moreover have "snd (last ?bs) = int series_length - 1"
    using n(1) by (simp add: last_map block_start_n len_def)
  moreover have "\<forall>i. Suc i < length ?bs \<longrightarrow> fst (?bs ! Suc i) = snd (?bs ! i) + 1"
    by simp
  moreover have "\<forall>i < length ?bs. fst (?bs ! i) \<le> snd (?bs ! i)"
    using block_start_less [OF n(2,1)] by (simp add: less_eq_Suc_le [symmetric] Suc_le_eq)
  moreover have "\<forall>i j. i \<le> j \<and> j < length ?bs \<longrightarrow>
       snd (?bs ! j) - fst (?bs ! j) \<le> snd (?bs ! i) - fst (?bs ! i) \<and>
       snd (?bs ! i) - fst (?bs ! i) \<le> snd (?bs ! j) - fst (?bs ! j) + 1"
  proof (intro allI impI)
    fix i j assume "i \<le> j \<and> j < length ?bs"
    then have "i < n" "j < n" "i \<le> j" by simp_all
    with size [of i] size [of j]
    show "snd (?bs ! j) - fst (?bs ! j) \<le> snd (?bs ! i) - fst (?bs ! i) \<and>
       snd (?bs ! i) - fst (?bs ! i) \<le> snd (?bs ! j) - fst (?bs ! j) + 1"
      by (simp split: if_splits)
  qed
  ultimately show ?thesis using result by blast
qed


theorem calculate_block_indices_partition_witness:
  "(1::int) \<le> 3 \<and> (3::int) \<le> int 10 \<and>
   calculate_block_indices 10 3 = Inr [(0, 3), (4, 6), (7, 9)] \<and>
   (\<exists>block_indices.
      calculate_block_indices 10 3 = Inr block_indices \<and>
      int (length block_indices) = 3 \<and>
      fst (block_indices ! 0) = 0 \<and>
      snd (last block_indices) = int 10 - 1)"
proof -
  have computed: "calculate_block_indices 10 3 = Inr [(0, 3), (4, 6), (7, 9)]"
    by code_simp
  have "(1::int) \<le> 3" and "(3::int) \<le> int 10" by simp_all
  from calculate_block_indices_partition [OF this] computed show ?thesis
    by simp
qed

text \<open>
  C8, amended. \<^verbatim>\<open>calculate_block_indices\<close> raises IndexError (the
  InvalidConfiguration of the specification) when the block count exceeds the length
  of the series, and returns for every block count from 1 to that length. For a
  block count of zero or less its own check does not apply, and the call fails with
  the ValueError of \<^verbatim>\<open>np.array_split\<close>, an exception of another kind.
\<close>

theorem calculate_block_indices_errors:
  "(int series_length < n_blocks \<longrightarrow>
      calculate_block_indices series_length n_blocks = Inl IndexError) \<and>
   (n_blocks \<le> 0 \<longrightarrow>
      calculate_block_indices series_length n_blocks = Inl ValueError) \<and>
   (1 \<le> n_blocks \<and> n_blocks \<le> int series_length \<longrightarrow>
      (\<exists>block_indices. calculate_block_indices series_length n_blocks = Inr block_indices))"
proof (intro conjI impI)
  assume "int series_length < n_blocks"
  then show "calculate_block_indices series_length n_blocks = Inl IndexError"
    by (simp add: calculate_block_indices_def)
next
  assume "n_blocks \<le> 0"
  then show "calculate_block_indices series_length n_blocks = Inl ValueError"
    by (simp add: calculate_block_indices_def array_split_def)
next
  assume "1 \<le> n_blocks \<and> n_blocks \<le> int series_length"
  then have "0 < nat n_blocks" "nat n_blocks \<le> series_length" by linarith+
  from calculate_block_indices_eq [OF this] \<open>1 \<le> n_blocks \<and> n_blocks \<le> int series_length\<close>
  show "\<exists>block_indices. calculate_block_indices series_length n_blocks = Inr block_indices"
    by simp
qed

theorem calculate_block_indices_errors_witness:
  "int 3 < 5 \<and> calculate_block_indices 3 5 = Inl IndexError \<and>
   (- 2 :: int) \<le> 0 \<and> calculate_block_indices 3 (- 2) = Inl ValueError \<and>
   (1::int) \<le> 2 \<and> 2 \<le> int 3 \<and> calculate_block_indices 3 2 = Inr [(0, 1), (2, 2)]"
proof -
  have "calculate_block_indices 3 2 = Inr [(0, 1), (2, 2)]"
    by code_simp
  with calculate_block_indices_errors [of 3 5] calculate_block_indices_errors [of 3 "- 2"]
    calculate_block_indices_errors [of 3 2]
  show ?thesis by simp
qed

text \<open>
  C8, as the specification states it, fails: for a series of length 3, no blocks give
  a ValueError, which is not the IndexError that five blocks give.
\<close>

theorem calculate_block_indices_zero_blocks:
  "calculate_block_indices 3 0 = Inl ValueError \<and> calculate_block_indices 3 5 = Inl IndexError"
  by (simp add: calculate_block_indices_def array_split_def)

subsection \<open>The arrays passed by reference\<close>







end
